theory Spec2Isabelle
  imports Complex_Main
begin

section \<open>Data model\<close>

text \<open>
  The voxel game of the repository (the variant with TNT). JavaScript numbers that hold
  voxel coordinates, fuse counters and item counts are integers and are modelled as
  \<open>int\<close>; positions, velocities and angles are modelled as \<open>real\<close> (a double is a
  real number). An inventory index is a \<open>nat\<close>.
\<close>

datatype BlockType =
  air | grass | dirt | stone | wood | planks | leaves | water | sand
  | cobblestone | glass | brick | tnt

text \<open>
  The interface \<open>Block\<close> has the single field \<open>type\<close>, and a block object is never
  mutated after its creation (voxels are replaced, not updated), so a block is its type.
\<close>

type_synonym Block = BlockType

record TNTEntity =
  ex :: real
  ey :: real
  ez :: real
  velX :: real
  velY :: real
  velZ :: real
  fuse :: int

datatype Mode = survival | creative

record Player =
  px :: real
  py :: real
  pz :: real
  pvelY :: real
  angleX :: real
  angleY :: real
  selectedSlot :: nat
  onGround :: bool
  mode :: Mode

record InventorySlot =
  type :: "BlockType option"
  count :: int

text \<open>
  The sum, the difference, the product, the quotient and the square root of doubles are
  rounded, and a floor taken of a rounded value can differ from the floor of the exact
  one. Where a test or a result of the program depends on such a value (the box of the
  player in \<open>placeBlock\<close>, the voxels and distances of an explosion, the step of an
  entity), the five operations are parameters, and what is proved holds for every way
  of rounding. \<open>exact\<close> is the arithmetic that does not round. The pick ray and the
  terrain are computed over the reals.
\<close>

record Arith =
  fadd :: "real \<Rightarrow> real \<Rightarrow> real"
  fsub :: "real \<Rightarrow> real \<Rightarrow> real"
  fmul :: "real \<Rightarrow> real \<Rightarrow> real"
  fdiv :: "real \<Rightarrow> real \<Rightarrow> real"
  fsqrt :: "real \<Rightarrow> real"

definition exact :: Arith where
  "exact = \<lparr>fadd = (\<lambda>a b. a + b), fsub = (\<lambda>a b. a - b), fmul = (\<lambda>a b. a * b),
            fdiv = (\<lambda>a b. a / b), fsqrt = sqrt\<rparr>"

definition CHUNK_SIZE :: int where
  "CHUNK_SIZE = 16"

definition WORLD_HEIGHT :: int where
  "WORLD_HEIGHT = 64"

text \<open>
  A chunk is the nested array \<open>chunk[x][y][z]\<close>. The world is the map of the chunks
  generated so far; its key \<open>`${chunkX},${chunkZ}`\<close> is the pair of the two integers
  (the decimal rendering of a pair of integers determines the pair).
\<close>

type_synonym Chunk = "Block list list list"

type_synonym World = "int \<times> int \<rightharpoonup> Chunk"

definition getChunkKey :: "int \<Rightarrow> int \<Rightarrow> int \<times> int" where
  "getChunkKey chunkX chunkZ = (chunkX, chunkZ)"

section \<open>Terrain generation\<close>

text \<open>
  \<open>Math.random()\<close> is an input: \<open>rand worldX worldZ\<close> is the number drawn for the
  column at these world coordinates. A chunk is generated at most once between two
  resets of the world, so a column has one draw.
\<close>

type_synonym Rand = "int \<Rightarrow> int \<Rightarrow> real"

definition emptyChunk :: Chunk where
  "emptyChunk =
     replicate (nat CHUNK_SIZE) (replicate (nat WORLD_HEIGHT) (replicate (nat CHUNK_SIZE) air))"

text \<open>The assignment \<open>chunk[x][y][z] = b\<close>.\<close>

definition put :: "Chunk \<Rightarrow> int \<Rightarrow> int \<Rightarrow> int \<Rightarrow> Block \<Rightarrow> Chunk" where
  "put chunk x y z b =
     chunk[nat x := (chunk ! nat x)[nat y := (chunk ! nat x ! nat y)[nat z := b]]]"

definition heightAt :: "int \<Rightarrow> int \<Rightarrow> int" where
  "heightAt worldX worldZ =
     (let baseHeight = 32;
          noise1 = sin (real_of_int worldX * 0.05) * cos (real_of_int worldZ * 0.05) * 3;
          noise2 = sin (real_of_int worldX * 0.02) * cos (real_of_int worldZ * 0.02) * 8
      in \<lfloor>baseHeight + noise1 + noise2\<rfloor>)"

definition biomeAt :: "int \<Rightarrow> int \<Rightarrow> real" where
  "biomeAt worldX worldZ = sin (real_of_int worldX * 0.01) + cos (real_of_int worldZ * 0.01)"

definition fillColumn :: "int \<Rightarrow> real \<Rightarrow> int \<Rightarrow> int \<Rightarrow> Chunk \<Rightarrow> Chunk" where
  "fillColumn height biome x z chunk =
     fold (\<lambda>y c.
            if y = 0 then put c x y z stone
            else if y < height - 4 then put c x y z stone
            else if y < height - 1 then put c x y z dirt
            else if biome > 0.5 then put c x y z sand
            else put c x y z grass)
          [0..height - 1] chunk"

definition growTree :: "int \<Rightarrow> int \<Rightarrow> int \<Rightarrow> Chunk \<Rightarrow> Chunk" where
  "growTree height x z chunk =
     (let trunk = fold (\<lambda>y c. put c x y z wood) [height..height + 4] chunk
      in fold (\<lambda>dx c. fold (\<lambda>dz c. fold (\<lambda>dy c.
                let nx = x + dx; nz = z + dz; ny = height + 4 + dy
                in if nx \<ge> 0 \<and> nx < CHUNK_SIZE \<and> nz \<ge> 0 \<and> nz < CHUNK_SIZE \<and> ny < WORLD_HEIGHT
                   then (if \<bar>dx\<bar> + \<bar>dz\<bar> \<le> 2 then put c nx ny nz leaves else c)
                   else c)
              [0..2] c) [-2..2] c) [-2..2] trunk)"

definition genColumn :: "Rand \<Rightarrow> int \<Rightarrow> int \<Rightarrow> int \<Rightarrow> int \<Rightarrow> Chunk \<Rightarrow> Chunk" where
  "genColumn rand chunkX chunkZ x z chunk =
     (let worldX = chunkX * CHUNK_SIZE + x;
          worldZ = chunkZ * CHUNK_SIZE + z;
          height = heightAt worldX worldZ;
          biome = biomeAt worldX worldZ;
          c1 = fillColumn height biome x z chunk;
          c2 = (if biome \<le> 0.5 \<and> rand worldX worldZ < 0.015 \<and> height < WORLD_HEIGHT - 6
                then growTree height x z c1 else c1)
      in if biome > 0.5 \<and> height > 30 \<and> height < 34
         then put (put c2 x height z water) x (height + 1) z water
         else c2)"

definition generateTerrain :: "Rand \<Rightarrow> int \<Rightarrow> int \<Rightarrow> Chunk" where
  "generateTerrain rand chunkX chunkZ =
     fold (\<lambda>x c. fold (\<lambda>z c. genColumn rand chunkX chunkZ x z c) [0..CHUNK_SIZE - 1] c)
          [0..CHUNK_SIZE - 1] emptyChunk"

section \<open>The world store\<close>

text \<open>
  The remainder operator \<open>%\<close> of JavaScript truncates towards zero: the result has the
  sign of the dividend.
\<close>

definition js_rem :: "int \<Rightarrow> int \<Rightarrow> int" where
  "js_rem a b = sgn a * (\<bar>a\<bar> mod \<bar>b\<bar>)"

definition chunkCoord :: "int \<Rightarrow> int" where
  "chunkCoord x = \<lfloor>real_of_int x / real_of_int CHUNK_SIZE\<rfloor>"

definition localIndex :: "int \<Rightarrow> int" where
  "localIndex x = js_rem (js_rem x CHUNK_SIZE + CHUNK_SIZE) CHUNK_SIZE"

text \<open>
  \<open>getBlock\<close> returns the block and the world after the call: an absent chunk is
  generated and stored before the height is tested.
\<close>

definition getBlock :: "Rand \<Rightarrow> World \<Rightarrow> int \<Rightarrow> int \<Rightarrow> int \<Rightarrow> Block \<times> World" where
  "getBlock rand world x y z =
     (let chunkX = chunkCoord x;
          chunkZ = chunkCoord z;
          key = getChunkKey chunkX chunkZ;
          world1 = (if world key = None then world(key \<mapsto> generateTerrain rand chunkX chunkZ)
                    else world);
          chunk = the (world1 key);
          localX = localIndex x;
          localZ = localIndex z
      in if y < 0 \<or> y \<ge> WORLD_HEIGHT then (air, world1)
         else (chunk ! nat localX ! nat y ! nat localZ, world1))"

definition setBlock :: "Rand \<Rightarrow> World \<Rightarrow> int \<Rightarrow> int \<Rightarrow> int \<Rightarrow> Block \<Rightarrow> World" where
  "setBlock rand world x y z block =
     (let chunkX = chunkCoord x;
          chunkZ = chunkCoord z;
          key = getChunkKey chunkX chunkZ;
          world1 = (if world key = None then world(key \<mapsto> generateTerrain rand chunkX chunkZ)
                    else world);
          chunk = the (world1 key);
          localX = localIndex x;
          localZ = localIndex z
      in if y \<ge> 0 \<and> y < WORLD_HEIGHT then world1(key \<mapsto> put chunk localX y localZ block)
         else world1)"

text \<open>
  Every chunk of the map was built by \<open>generateTerrain\<close> and changed by \<open>setBlock\<close>
  only, so it has the extent 16 x 64 x 16; the reads and writes above then stay in range.
\<close>

definition chunk_wf :: "Chunk \<Rightarrow> bool" where
  "chunk_wf chunk \<longleftrightarrow>
     length chunk = nat CHUNK_SIZE \<and>
     (\<forall>col \<in> set chunk. length col = nat WORLD_HEIGHT \<and>
        (\<forall>row \<in> set col. length row = nat CHUNK_SIZE))"

definition world_wf :: "World \<Rightarrow> bool" where
  "world_wf world \<longleftrightarrow> (\<forall>chunk \<in> ran world. chunk_wf chunk)"

section \<open>TNT\<close>

record Game =
  world :: World
  inventory :: "InventorySlot list"
  tntEntities :: "TNTEntity list"

text \<open>
  \<open>igniteTNT\<close> draws two random numbers, \<open>r1\<close> and \<open>r2\<close>, for the horizontal velocity
  of the new entity.
\<close>

definition igniteTNT :: "Rand \<Rightarrow> real \<Rightarrow> real \<Rightarrow> int \<Rightarrow> int \<Rightarrow> int \<Rightarrow> Game \<Rightarrow> Game" where
  "igniteTNT rand r1 r2 x y z g =
     g\<lparr>tntEntities := tntEntities g @
          [\<lparr>ex = real_of_int x + 0.5, ey = real_of_int y + 0.5, ez = real_of_int z + 0.5,
            velX = (r1 - 0.5) * 0.02, velY = 0.2, velZ = (r2 - 0.5) * 0.02, fuse = 80\<rparr>],
       world := setBlock rand (world g) x y z air\<rparr>"

text \<open>
  The random numbers of an explosion, one set for each offset \<open>(dx, dy, dz)\<close> of the
  loop: \<open>destroyDraw\<close> is compared with the distance, \<open>velXDraw\<close> and \<open>velZDraw\<close> go to
  \<open>igniteTNT\<close>.
\<close>

record Draws =
  destroyDraw :: "int \<times> int \<times> int \<Rightarrow> real"
  velXDraw :: "int \<times> int \<times> int \<Rightarrow> real"
  velZDraw :: "int \<times> int \<times> int \<Rightarrow> real"

definition explodeAt ::
  "Arith \<Rightarrow> Rand \<Rightarrow> Draws \<Rightarrow> real \<Rightarrow> real \<Rightarrow> real \<Rightarrow> int \<times> int \<times> int \<Rightarrow> Game \<Rightarrow> Game" where
  "explodeAt ar rand draws x y z d g =
     (case d of (dx, dy, dz) \<Rightarrow>
        let radius = 4;
            dist = fsqrt ar (real_of_int (dx * dx + dy * dy + dz * dz))
        in if dist \<le> radius then
             (let bx = \<lfloor>fadd ar x (real_of_int dx)\<rfloor>;
                  by = \<lfloor>fadd ar y (real_of_int dy)\<rfloor>;
                  bz = \<lfloor>fadd ar z (real_of_int dz)\<rfloor>;
                  (block, world1) = getBlock rand (world g) bx by bz;
                  g1 = g\<lparr>world := world1\<rparr>
              in if block = tnt then igniteTNT rand (velXDraw draws d) (velZDraw draws d) bx by bz g1
                 else if block \<noteq> air \<and> destroyDraw draws d > fmul ar (fdiv ar dist radius) 0.5
                 then g1\<lparr>world := setBlock rand world1 bx by bz air\<rparr>
                 else g1)
           else g)"

definition explodeTNT :: "Arith \<Rightarrow> Rand \<Rightarrow> Draws \<Rightarrow> real \<Rightarrow> real \<Rightarrow> real \<Rightarrow> Game \<Rightarrow> Game" where
  "explodeTNT ar rand draws x y z g =
     fold (\<lambda>dx g. fold (\<lambda>dy g. fold (\<lambda>dz g. explodeAt ar rand draws x y z (dx, dy, dz) g)
                                     [- 4..4] g) [- 4..4] g) [- 4..4] g"


section \<open>The pick ray\<close>

record Hit =
  hx :: int
  hy :: int
  hz :: int
  face :: nat

text \<open>
  The loop \<open>for (let i = 0; i < maxDist / step; i++)\<close> of \<open>raycast\<close>, over the list of its
  indices; it returns at the first solid voxel.
\<close>

fun march :: "Rand \<Rightarrow> Player \<Rightarrow> real \<times> real \<times> real \<Rightarrow> nat list \<Rightarrow> World \<Rightarrow> Hit option \<times> World" where
  "march rand p dir [] w = (None, w)"
| "march rand p (dirX, dirY, dirZ) (i # rest) w =
     (let step = 0.1;
          dist = real i * step;
          x = \<lfloor>px p + dirX * dist\<rfloor>;
          y = \<lfloor>py p + dirY * dist\<rfloor>;
          z = \<lfloor>pz p + dirZ * dist\<rfloor>;
          (block, w1) = getBlock rand w x y z
      in if block \<noteq> air \<and> block \<noteq> water then
           (let prevX = \<lfloor>px p + dirX * (dist - step)\<rfloor>;
                prevY = \<lfloor>py p + dirY * (dist - step)\<rfloor>;
                prevZ = \<lfloor>pz p + dirZ * (dist - step)\<rfloor>;
                f = (if prevX \<noteq> x then (if dirX > 0 then 1 else 2)
                        else if prevY \<noteq> y then (if dirY > 0 then 3 else 4)
                        else if prevZ \<noteq> z then (if dirZ > 0 then 5 else 6)
                        else 0)
            in (Some \<lparr>hx = x, hy = y, hz = z, face = f\<rparr>, w1))
         else march rand p (dirX, dirY, dirZ) rest w1)"

definition raycast :: "Rand \<Rightarrow> Player \<Rightarrow> real \<Rightarrow> World \<Rightarrow> Hit option \<times> World" where
  "raycast rand p maxDist w =
     (let step = 0.1;
          dirX = cos (angleY p) * cos (angleX p);
          dirY = - sin (angleY p);
          dirZ = cos (angleY p) * sin (angleX p)
      in march rand p (dirX, dirY, dirZ) [0..<nat \<lceil>maxDist / step\<rceil>] w)"

section \<open>Breaking and placing blocks\<close>

text \<open>
  \<open>inventory.find(pred)\<close> gives the first slot that satisfies the predicate, and the
  source then updates that slot in place: the model finds its index.
\<close>

primrec findIndex :: "('a \<Rightarrow> bool) \<Rightarrow> 'a list \<Rightarrow> nat option" where
  "findIndex P [] = None"
| "findIndex P (s # rest) = (if P s then Some 0 else map_option Suc (findIndex P rest))"

text \<open>
  \<open>breakBlock\<close> and \<open>placeBlock\<close> read the player and the inventory of their closure;
  \<open>r1\<close> and \<open>r2\<close> are the random numbers that \<open>igniteTNT\<close> draws.
\<close>

definition breakBlock :: "Rand \<Rightarrow> real \<Rightarrow> real \<Rightarrow> Player \<Rightarrow> Game \<Rightarrow> Game" where
  "breakBlock rand r1 r2 p g =
     (case raycast rand p 5 (world g) of
        (None, world1) \<Rightarrow> g\<lparr>world := world1\<rparr>
      | (Some hit, world1) \<Rightarrow>
          (let (block, world2) = getBlock rand world1 (hx hit) (hy hit) (hz hit)
           in if block = tnt
              then igniteTNT rand r1 r2 (hx hit) (hy hit) (hz hit) (g\<lparr>world := world2\<rparr>)
              else
                (let g3 = g\<lparr>world := setBlock rand world2 (hx hit) (hy hit) (hz hit) air\<rparr>;
                     slots = inventory g
                 in if mode p = survival then
                      (case findIndex (\<lambda>s. type s = Some block \<and> count s < 64) slots of
                         Some i \<Rightarrow>
                           g3\<lparr>inventory := slots[i := (slots ! i)\<lparr>count := count (slots ! i) + 1\<rparr>]\<rparr>
                       | None \<Rightarrow>
                           (case findIndex (\<lambda>s. type s = None) slots of
                              Some j \<Rightarrow>
                                g3\<lparr>inventory := slots[j := (slots ! j)\<lparr>type := Some block, count := 1\<rparr>]\<rparr>
                            | None \<Rightarrow> g3))
                    else g3)))"

text \<open>
  Reading \<open>inventory[player.selectedSlot].type\<close> with an index outside the array throws
  a TypeError; this happens after the ray was cast and only when it hit.
\<close>

datatype error = TypeError

definition faceOffsets :: "(int \<times> int \<times> int) list" where
  "faceOffsets = [(0, 0, 0), (1, 0, 0), (- 1, 0, 0), (0, 1, 0), (0, - 1, 0), (0, 0, 1), (0, 0, - 1)]"

definition placeBlock :: "Arith \<Rightarrow> Rand \<Rightarrow> Player \<Rightarrow> Game \<Rightarrow> error + Game" where
  "placeBlock ar rand p g =
     (case raycast rand p 5 (world g) of
        (None, world1) \<Rightarrow> Inr (g\<lparr>world := world1\<rparr>)
      | (Some hit, world1) \<Rightarrow>
          (let slots = inventory g; sel = selectedSlot p; g1 = g\<lparr>world := world1\<rparr>
           in if sel \<ge> length slots then Inl TypeError
              else if type (slots ! sel) \<noteq> None \<and> count (slots ! sel) > 0 then
                (case faceOffsets ! face hit of (ox, oy, oz) \<Rightarrow>
                   let newX = hx hit + ox;
                       newY = hy hit + oy;
                       newZ = hz hit + oz;
                       minX = \<lfloor>fsub ar (px p) 0.3\<rfloor>; maxX = \<lfloor>fadd ar (px p) 0.3\<rfloor>;
                       minY = \<lfloor>fsub ar (py p) 1.8\<rfloor>; maxY = \<lfloor>fadd ar (py p) 0.2\<rfloor>;
                       minZ = \<lfloor>fsub ar (pz p) 0.3\<rfloor>; maxZ = \<lfloor>fadd ar (pz p) 0.3\<rfloor>
                   in if newX < minX \<or> newX > maxX \<or> newY < minY \<or> newY > maxY \<or>
                         newZ < minZ \<or> newZ > maxZ
                      then
                        (let g2 = g1\<lparr>world := setBlock rand world1 newX newY newZ (the (type (slots ! sel)))\<rparr>
                         in if mode p = survival then
                              (let s1 = (slots ! sel)\<lparr>count := count (slots ! sel) - 1\<rparr>;
                                   s2 = (if count s1 = 0 then s1\<lparr>type := None\<rparr> else s1)
                               in Inr (g2\<lparr>inventory := slots[sel := s2]\<rparr>))
                            else Inr g2)
                      else Inr g1)
              else Inr g1))"

text \<open>
  A sequence of break and place actions. Between two actions the player moves, so each
  action has the player of its moment; a thrown error ends the run.
\<close>

datatype Action = Break Player real real | Place Player

fun run :: "Arith \<Rightarrow> Rand \<Rightarrow> Action list \<Rightarrow> Game \<Rightarrow> error + Game" where
  "run ar rand [] g = Inr g"
| "run ar rand (Break p r1 r2 # rest) g = run ar rand rest (breakBlock rand r1 r2 p g)"
| "run ar rand (Place p # rest) g =
     (case placeBlock ar rand p g of Inl e \<Rightarrow> Inl e | Inr g' \<Rightarrow> run ar rand rest g')"

text \<open>A place action reads the slot of its player: the index has to be in the inventory.\<close>

fun slotInRange :: "nat \<Rightarrow> Action \<Rightarrow> bool" where
  "slotInRange n (Break p r1 r2) = True"
| "slotInRange n (Place p) = (selectedSlot p < n)"

text \<open>The invariant of an inventory slot: it is empty exactly when its count is 0.\<close>

definition slot_ok :: "InventorySlot \<Rightarrow> bool" where
  "slot_ok s \<longleftrightarrow> (type s = None \<longleftrightarrow> count s = 0) \<and> 0 \<le> count s \<and> count s \<le> 64"


text \<open>The block that a lookup at a world coordinate gives.\<close>

definition blockAt :: "Rand \<Rightarrow> World \<Rightarrow> int \<times> int \<times> int \<Rightarrow> Block" where
  "blockAt rand w c = (case c of (x, y, z) \<Rightarrow> fst (getBlock rand w x y z))"

text \<open>
  The parts of one pass of the loop in \<open>explodeTNT\<close>, named for the statements about
  it: the offsets in the order in which the three loops visit them, the voxel that the
  loop computes for an offset, the distance that it computes for the offset, and the
  entity that \<open>igniteTNT\<close> appends for a voxel, with the draws of the offset.
\<close>

definition blastOffsets :: "(int \<times> int \<times> int) list" where
  "blastOffsets =
     concat (map (\<lambda>dx. concat (map (\<lambda>dy. map (\<lambda>dz. (dx, dy, dz)) [- 4..4]) [- 4..4])) [- 4..4])"

definition blastTarget ::
  "Arith \<Rightarrow> real \<Rightarrow> real \<Rightarrow> real \<Rightarrow> int \<times> int \<times> int \<Rightarrow> int \<times> int \<times> int" where
  "blastTarget ar x y z d =
     (case d of (dx, dy, dz) \<Rightarrow>
        (\<lfloor>fadd ar x (real_of_int dx)\<rfloor>, \<lfloor>fadd ar y (real_of_int dy)\<rfloor>,
         \<lfloor>fadd ar z (real_of_int dz)\<rfloor>))"

definition blastDist :: "Arith \<Rightarrow> int \<times> int \<times> int \<Rightarrow> real" where
  "blastDist ar d =
     (case d of (dx, dy, dz) \<Rightarrow> fsqrt ar (real_of_int (dx * dx + dy * dy + dz * dz)))"

definition armed :: "Draws \<Rightarrow> int \<times> int \<times> int \<Rightarrow> int \<times> int \<times> int \<Rightarrow> TNTEntity" where
  "armed draws d b =
     (case b of (bx, by, bz) \<Rightarrow>
        \<lparr>ex = real_of_int bx + 0.5, ey = real_of_int by + 0.5, ez = real_of_int bz + 0.5,
         velX = (velXDraw draws d - 0.5) * 0.02, velY = 0.2,
         velZ = (velZDraw draws d - 0.5) * 0.02, fuse = 80\<rparr>)"

section \<open>Scenes for the worked examples\<close>

text \<open>
  Concrete worlds and players, each reached from the empty world by calls of \<open>setBlock\<close>:
  a block at (9, 40, 8) with air before it and a player who looks east at it, and a
  player in creative mode (where nothing stops the vertical motion) whose eye is inside
  a stone block. The random number 0.5 grows no tree.
\<close>

definition calm :: Rand where
  "calm = (\<lambda>_ _. 0.5)"

definition wallWorld :: "Block \<Rightarrow> World" where
  "wallWorld b = setBlock calm (setBlock calm Map.empty 8 40 8 air) 9 40 8 b"

definition facingEast :: "Mode \<Rightarrow> Player" where
  "facingEast m = \<lparr>px = 8.95, py = 40.5, pz = 8.5, pvelY = 0, angleX = 0, angleY = 0,
                    selectedSlot = 0, onGround = False, mode = m\<rparr>"

definition wallGame :: "Block \<Rightarrow> InventorySlot list \<Rightarrow> Game" where
  "wallGame b slots = \<lparr>world = wallWorld b, inventory = slots, tntEntities = []\<rparr>"



text \<open>
  For the explosion: draws that are all 0.5, and a world with a tnt block at (9, 40, 8),
  a stone block at (10, 40, 8) and a brick block at (12, 40, 8). For the tick of an
  entity: a stone block at (9, 40, 8) with air above it.
\<close>

definition evenDraws :: Draws where
  "evenDraws = \<lparr>destroyDraw = (\<lambda>_. 0.5), velXDraw = (\<lambda>_. 0.5), velZDraw = (\<lambda>_. 0.5)\<rparr>"

definition blastGame :: Game where
  "blastGame =
     \<lparr>world = setBlock calm (setBlock calm (setBlock calm Map.empty 9 40 8 tnt) 10 40 8 stone)
                12 40 8 brick,
      inventory = [], tntEntities = []\<rparr>"


text \<open>
  Notions for the proofs: the chunk that a lookup of a key reads, generated when it is
  absent, the map after such a lookup, and the test by which one pass of the explosion
  loop, at offset \<open>d\<close>, clears the voxel \<open>b\<close>.
\<close>

definition chunkOf :: "Rand \<Rightarrow> World \<Rightarrow> int \<times> int \<Rightarrow> Chunk" where
  "chunkOf rand w k = (case w k of None \<Rightarrow> generateTerrain rand (fst k) (snd k) | Some c \<Rightarrow> c)"

definition touch :: "Rand \<Rightarrow> World \<Rightarrow> int \<times> int \<Rightarrow> World" where
  "touch rand w k = (if w k = None then w(k \<mapsto> generateTerrain rand (fst k) (snd k)) else w)"

definition blasted ::
  "Arith \<Rightarrow> Rand \<Rightarrow> Draws \<Rightarrow> World \<Rightarrow> int \<times> int \<times> int \<Rightarrow> int \<times> int \<times> int \<Rightarrow> bool" where
  "blasted ar rand draws w d b \<longleftrightarrow>
     blastDist ar d \<le> 4 \<and>
     (blockAt rand w b = tnt \<or>
      blockAt rand w b \<noteq> air \<and>
      destroyDraw draws d > fmul ar (fdiv ar (blastDist ar d) 4) 0.5)"

section \<open>Coordinates\<close>

lemma chunkCoord_div: "chunkCoord x = x div 16"
  using floor_divide_of_int_eq [of x 16] by (simp add: chunkCoord_def CHUNK_SIZE_def)

lemma js_rem_16: "js_rem x 16 = (if 0 \<le> x then x mod 16 else - ((- x) mod 16))"
  by (simp add: js_rem_def sgn_if)

lemma localIndex_mod: "localIndex x = x mod 16"
proof -
  have "js_rem (js_rem x 16 + 16) 16 = x mod 16"
  proof (cases "0 \<le> x")
    case True
    then have "js_rem x 16 = x mod 16" by (simp add: js_rem_16)
    moreover have "0 \<le> x mod 16" "x mod 16 < 16" by simp_all
    ultimately show ?thesis by (simp add: js_rem_16)
  next
    case False
    define r where "r = (- x) mod 16"
    have r: "0 \<le> r" "r < 16" by (simp_all add: r_def)
    have jr: "js_rem x 16 = - r" using False by (simp add: js_rem_16 r_def)
    have "(16 - r) mod 16 = (- r) mod 16"
      by (metis mod_add_self1 uminus_add_conv_diff add.commute)
    also have "\<dots> = x mod 16" by (simp add: r_def mod_minus_eq)
    finally have "(16 - r) mod 16 = x mod 16" .
    moreover have "js_rem (16 - r) 16 = (16 - r) mod 16" using r by (simp add: js_rem_16)
    ultimately show ?thesis by (simp add: jr)
  qed
  then show ?thesis by (simp add: localIndex_def CHUNK_SIZE_def)
qed

lemma div_mod_16_unique:
  fixes c l x :: int
  assumes "0 \<le> l" "l < 16" "c * 16 + l = x"
  shows "c = x div 16 \<and> l = x mod 16"
proof -
  have "x div 16 = c" using assms by (simp add: div_pos_pos_trivial flip: assms(3))
  moreover have "x mod 16 = l" using assms by (simp add: mod_pos_pos_trivial flip: assms(3))
  ultimately show ?thesis by simp
qed

text \<open>
  C8. For every integer \<open>x\<close> the local index \<open>((x % 16) + 16) % 16\<close> lies in [0,16), and
  with the chunk coordinate \<open>floor(x / 16)\<close> it gives \<open>x\<close> back; no other pair of a chunk
  coordinate and an index in [0,16) does. For \<open>x = -1\<close> the index is 15 and the chunk
  coordinate is -1.
\<close>

theorem local_index_wrap:
  "0 \<le> localIndex x \<and> localIndex x < CHUNK_SIZE \<and>
   chunkCoord x * CHUNK_SIZE + localIndex x = x \<and>
   (\<forall>c l. 0 \<le> l \<and> l < CHUNK_SIZE \<and> c * CHUNK_SIZE + l = x
          \<longrightarrow> c = chunkCoord x \<and> l = localIndex x) \<and>
   localIndex (- 1) = 15 \<and> chunkCoord (- 1) = - 1"
  unfolding chunkCoord_div localIndex_mod CHUNK_SIZE_def
  using div_mod_16_unique by auto

theorem local_index_wrap_witness:
  "0 \<le> (7::int) \<and> (7::int) < CHUNK_SIZE \<and> (- 3) * CHUNK_SIZE + 7 = (- 41 :: int) \<and>
   chunkCoord (- 41) = - 3 \<and> localIndex (- 41) = 7"
proof -
  have h: "0 \<le> (7::int) \<and> (7::int) < CHUNK_SIZE \<and> (- 3) * CHUNK_SIZE + 7 = (- 41 :: int)"
    by (simp add: CHUNK_SIZE_def)
  from local_index_wrap [of "- 41"]
  have "\<forall>c l. 0 \<le> l \<and> l < CHUNK_SIZE \<and> c * CHUNK_SIZE + l = - 41
          \<longrightarrow> c = chunkCoord (- 41) \<and> l = localIndex (- 41)"
    by blast
  then have "0 \<le> (7::int) \<and> (7::int) < CHUNK_SIZE \<and> (- 3) * CHUNK_SIZE + 7 = (- 41 :: int)
          \<longrightarrow> - 3 = chunkCoord (- 41) \<and> 7 = localIndex (- 41)"
    by blast
  with h show ?thesis by simp
qed

section \<open>Chunks keep their extent\<close>

lemma chunk_wf_emptyChunk: "chunk_wf emptyChunk"
  by (simp add: chunk_wf_def emptyChunk_def)

lemma chunk_wf_nth:
  assumes "chunk_wf c" "i < 16" "j < 64"
  shows "length c = 16" "length (c ! i) = 64" "length (c ! i ! j) = 16"
proof -
  show l: "length c = 16" using assms by (simp add: chunk_wf_def CHUNK_SIZE_def)
  have m: "c ! i \<in> set c" using l assms by simp
  then show l2: "length (c ! i) = 64" using assms by (simp add: chunk_wf_def WORLD_HEIGHT_def)
  have "c ! i ! j \<in> set (c ! i)" using l2 assms by simp
  with m show "length (c ! i ! j) = 16"
    using assms(1) unfolding chunk_wf_def CHUNK_SIZE_def by auto
qed

lemma chunk_wf_put: 
  assumes "chunk_wf c"
  shows "chunk_wf (put c x y z b)"
proof -
  have len: "length c = nat CHUNK_SIZE" using assms by (simp add: chunk_wf_def)
  have cols: "\<And>col. col \<in> set c \<Longrightarrow> length col = nat WORLD_HEIGHT \<and> (\<forall>row \<in> set col. length row = nat CHUNK_SIZE)"
    using assms by (simp add: chunk_wf_def)
  show ?thesis
  proof (cases "nat x < length c")
    case False
    then show ?thesis using assms by (simp add: put_def list_update_beyond)
  next
    case True
    let ?col = "c ! nat x"
    have colin: "?col \<in> set c" using True by simp
    let ?col' = "?col[nat y := (?col ! nat y)[nat z := b]]"
    have col'len: "length ?col' = nat WORLD_HEIGHT" using cols[OF colin] by simp
    have rows: "\<forall>row \<in> set ?col'. length row = nat CHUNK_SIZE"
    proof
      fix row assume "row \<in> set ?col'"
      then have "row \<in> insert ((?col ! nat y)[nat z := b]) (set ?col)"
        using set_update_subset_insert by fastforce
      moreover have "nat y < length ?col \<Longrightarrow> length ((?col ! nat y)[nat z := b]) = nat CHUNK_SIZE"
        using cols[OF colin] by simp
      moreover have "\<not> nat y < length ?col \<Longrightarrow> ?col' = ?col" by (simp add: list_update_beyond)
      ultimately show "length row = nat CHUNK_SIZE"
        using cols[OF colin] \<open>row \<in> set ?col'\<close> by (cases "nat y < length ?col") auto
    qed
    have "\<forall>col \<in> set (c[nat x := ?col']). length col = nat WORLD_HEIGHT \<and> (\<forall>row \<in> set col. length row = nat CHUNK_SIZE)"
    proof
      fix col assume "col \<in> set (c[nat x := ?col'])"
      then have "col \<in> insert ?col' (set c)" using set_update_subset_insert by fastforce
      then show "length col = nat WORLD_HEIGHT \<and> (\<forall>row \<in> set col. length row = nat CHUNK_SIZE)"
        using col'len rows cols by blast
    qed
    then show ?thesis using len by (simp add: chunk_wf_def put_def)
  qed
qed

lemma fold_chunk_wf:
  assumes "chunk_wf a" "\<And>x c. chunk_wf c \<Longrightarrow> chunk_wf (f x c)"
  shows "chunk_wf (fold f xs a)"
  using assms(1) by (induction xs arbitrary: a) (simp_all add: assms(2))

lemma chunk_wf_fillColumn: "chunk_wf c \<Longrightarrow> chunk_wf (fillColumn h b x z c)"
  unfolding fillColumn_def by (rule fold_chunk_wf) (simp_all add: chunk_wf_put)

lemma chunk_wf_growTree: "chunk_wf c \<Longrightarrow> chunk_wf (growTree h x z c)"
  unfolding growTree_def Let_def
  by (intro fold_chunk_wf) (simp_all add: chunk_wf_put)

lemma chunk_wf_genColumn: "chunk_wf c \<Longrightarrow> chunk_wf (genColumn rand cx cz x z c)"
  by (simp add: genColumn_def Let_def chunk_wf_put chunk_wf_fillColumn chunk_wf_growTree)

lemma chunk_wf_generateTerrain: "chunk_wf (generateTerrain rand cx cz)"
  unfolding generateTerrain_def
  by (intro fold_chunk_wf chunk_wf_emptyChunk chunk_wf_genColumn)

lemma put_nth:
  assumes "chunk_wf c" "0 \<le> x" "x < 16" "0 \<le> y" "y < 64" "0 \<le> z" "z < 16"
    "0 \<le> x'" "x' < 16" "0 \<le> y'" "y' < 64" "0 \<le> z'" "z' < 16"
  shows "put c x y z b ! nat x' ! nat y' ! nat z' =
         (if x' = x \<and> y' = y \<and> z' = z then b else c ! nat x' ! nat y' ! nat z')"
proof -
  have l: "length c = 16" "length (c ! nat x) = 64" "length (c ! nat x ! nat y) = 16"
    using chunk_wf_nth[OF assms(1), of "nat x" "nat y"] assms by simp_all
  have e: "nat x' = nat x \<longleftrightarrow> x' = x" "nat y' = nat y \<longleftrightarrow> y' = y" "nat z' = nat z \<longleftrightarrow> z' = z"
    using assms by auto
  have b: "nat x' < 16" "nat y' < 64" "nat z' < 16" "nat x < 16" "nat y < 64" "nat z < 16"
    using assms by auto
  show ?thesis
    unfolding put_def using l e b by (auto simp: nth_list_update)
qed

section \<open>Lookups and stores\<close>

lemma chunkOf_touch [simp]: "chunkOf rand (touch rand w k) k' = chunkOf rand w k'"
  by (simp add: chunkOf_def touch_def split: option.splits)

lemma chunkOf_upd [simp]: "chunkOf rand (w(k \<mapsto> c)) k' = (if k' = k then c else chunkOf rand w k')"
  by (simp add: chunkOf_def)

lemma touch_present: "touch rand w k k \<noteq> None"
  by (simp add: touch_def)

lemma touch_other: "k' \<noteq> k \<Longrightarrow> touch rand w k k' = w k'"
  by (simp add: touch_def)

lemma touch_dom: "dom (touch rand w k) = insert k (dom w)"
  by (auto simp: touch_def split: if_splits)

lemma touch_keeps: "w k' = Some c \<Longrightarrow> touch rand w k k' = Some c"
  by (auto simp: touch_def)

lemma getBlock_eq:
  "getBlock rand w x y z =
     (if y < 0 \<or> 64 \<le> y then air
      else chunkOf rand w (chunkCoord x, chunkCoord z) ! nat (localIndex x) ! nat y ! nat (localIndex z),
      touch rand w (chunkCoord x, chunkCoord z))"
  by (auto simp: getBlock_def Let_def getChunkKey_def WORLD_HEIGHT_def chunkOf_def touch_def)

lemma setBlock_eq:
  "setBlock rand w x y z b =
     (if 0 \<le> y \<and> y < 64
      then w((chunkCoord x, chunkCoord z) \<mapsto>
             put (chunkOf rand w (chunkCoord x, chunkCoord z)) (localIndex x) y (localIndex z) b)
      else touch rand w (chunkCoord x, chunkCoord z))"
  by (auto simp: setBlock_def Let_def getChunkKey_def WORLD_HEIGHT_def chunkOf_def touch_def)

lemma blockAt_eq:
  "blockAt rand w (x, y, z) =
     (if y < 0 \<or> 64 \<le> y then air
      else chunkOf rand w (chunkCoord x, chunkCoord z) ! nat (localIndex x) ! nat y ! nat (localIndex z))"
  by (simp add: blockAt_def getBlock_eq)

lemma world_wf_chunkOf: "world_wf w \<Longrightarrow> chunk_wf (chunkOf rand w k)"
proof (cases "w k")
  case None
  then show ?thesis by (simp add: chunkOf_def chunk_wf_generateTerrain)
next
  case (Some c)
  assume "world_wf w"
  moreover have "c \<in> ran w" using Some by (rule ranI)
  ultimately show ?thesis using Some by (simp add: chunkOf_def world_wf_def)
qed

lemma world_wf_upd: "world_wf w \<Longrightarrow> chunk_wf c \<Longrightarrow> world_wf (w(k \<mapsto> c))"
  by (auto simp: world_wf_def ran_def split: if_splits)

lemma world_wf_touch: "world_wf w \<Longrightarrow> world_wf (touch rand w k)"
  by (simp add: touch_def world_wf_upd chunk_wf_generateTerrain)

lemma world_wf_empty: "world_wf Map.empty"
  by (simp add: world_wf_def)

lemma world_wf_getBlock: "world_wf w \<Longrightarrow> world_wf (snd (getBlock rand w x y z))"
  by (simp add: getBlock_eq world_wf_touch)

lemma world_wf_setBlock: "world_wf w \<Longrightarrow> world_wf (setBlock rand w x y z b)"
  by (simp add: setBlock_eq world_wf_touch world_wf_upd chunk_wf_put world_wf_chunkOf)

lemma localIndex_range: "0 \<le> localIndex x" "localIndex x < 16"
  by (simp_all add: localIndex_mod)

lemma coord_eq_iff: "chunkCoord x' = chunkCoord x \<and> localIndex x' = localIndex x \<longleftrightarrow> x' = x"
  unfolding chunkCoord_div localIndex_mod
  by (metis mult_div_mod_eq)

lemma blockAt_touch [simp]: "blockAt rand (touch rand w k) c = blockAt rand w c"
  by (cases c) (simp add: blockAt_eq)

lemma blockAt_getBlock [simp]: "blockAt rand (snd (getBlock rand w x y z)) c = blockAt rand w c"
  by (simp add: getBlock_eq)

lemma fst_getBlock: "fst (getBlock rand w x y z) = blockAt rand w (x, y, z)"
  by (simp add: blockAt_def)

lemma blockAt_setBlock:
  assumes "world_wf w"
  shows "blockAt rand (setBlock rand w x y z b) (x', y', z') =
         (if (x', y', z') = (x, y, z) \<and> 0 \<le> y \<and> y < 64 then b else blockAt rand w (x', y', z'))"
proof (cases "0 \<le> y \<and> y < 64")
  case False
  then show ?thesis by (auto simp: setBlock_eq)
next
  case y: True
  show ?thesis
  proof (cases "0 \<le> y' \<and> y' < 64")
    case False
    then show ?thesis using y by (auto simp: blockAt_eq)
  next
    case y': True
    let ?k = "(chunkCoord x, chunkCoord z)"
    let ?k' = "(chunkCoord x', chunkCoord z')"
    show ?thesis
    proof (cases "?k' = ?k")
      case False
      then have ne: "(x', y', z') \<noteq> (x, y, z)" by auto
      have "blockAt rand (setBlock rand w x y z b) (x', y', z') = blockAt rand w (x', y', z')"
        using False y y' by (auto simp: blockAt_eq setBlock_eq)
      then show ?thesis using ne by auto
    next
      case True
      have wf: "chunk_wf (chunkOf rand w ?k)" using assms by (rule world_wf_chunkOf)
      have "blockAt rand (setBlock rand w x y z b) (x', y', z') =
            put (chunkOf rand w ?k) (localIndex x) y (localIndex z) b
              ! nat (localIndex x') ! nat y' ! nat (localIndex z')"
        using True y y' by (simp add: blockAt_eq setBlock_eq)
      also have "\<dots> = (if localIndex x' = localIndex x \<and> y' = y \<and> localIndex z' = localIndex z
                        then b
                        else chunkOf rand w ?k ! nat (localIndex x') ! nat y' ! nat (localIndex z'))"
        using y y' by (intro put_nth wf localIndex_range) simp_all
      finally show ?thesis
        using True y y' coord_eq_iff[of x' x] coord_eq_iff[of z' z]
        by (auto simp: blockAt_eq)
    qed
  qed
qed

section \<open>What the pick ray does to the world\<close>

lemma getBlock_keeps: "w k = Some c \<Longrightarrow> snd (getBlock rand w x y z) k = Some c"
  by (simp add: getBlock_eq touch_keeps)

lemma march_step:
  "march rand p (dirX, dirY, dirZ) (i # rest) w =
     (let x = \<lfloor>px p + dirX * (real i * 0.1)\<rfloor>;
          y = \<lfloor>py p + dirY * (real i * 0.1)\<rfloor>;
          z = \<lfloor>pz p + dirZ * (real i * 0.1)\<rfloor>;
          w1 = snd (getBlock rand w x y z)
      in if blockAt rand w (x, y, z) \<noteq> air \<and> blockAt rand w (x, y, z) \<noteq> water
         then (Some \<lparr>hx = x, hy = y, hz = z,
                     face = (if \<lfloor>px p + dirX * (real i * 0.1 - 0.1)\<rfloor> \<noteq> x
                             then (if dirX > 0 then 1 else 2)
                             else if \<lfloor>py p + dirY * (real i * 0.1 - 0.1)\<rfloor> \<noteq> y
                             then (if dirY > 0 then 3 else 4)
                             else if \<lfloor>pz p + dirZ * (real i * 0.1 - 0.1)\<rfloor> \<noteq> z
                             then (if dirZ > 0 then 5 else 6)
                             else 0)\<rparr>, w1)
         else march rand p (dirX, dirY, dirZ) rest w1)"
  by (simp add: Let_def blockAt_def split: prod.splits)

lemma march_world:
  "blockAt rand (snd (march rand p dir steps w)) c = blockAt rand w c"
proof (induction steps arbitrary: w)
  case Nil
  then show ?case by simp
next
  case (Cons i rest)
  obtain dirX dirY dirZ where d: "dir = (dirX, dirY, dirZ)" by (cases dir) auto
  show ?case unfolding d march_step Let_def
    using Cons.IH by (simp add: d)
qed

lemma march_wf:
  "world_wf w \<Longrightarrow> world_wf (snd (march rand p dir steps w))"
proof (induction steps arbitrary: w)
  case Nil
  then show ?case by simp
next
  case (Cons i rest)
  obtain dirX dirY dirZ where d: "dir = (dirX, dirY, dirZ)" by (cases dir) auto
  show ?case unfolding d march_step Let_def
    using Cons.IH Cons.prems by (simp add: d world_wf_getBlock)
qed

lemma march_keeps:
  "w k = Some c \<Longrightarrow> snd (march rand p dir steps w) k = Some c"
proof (induction steps arbitrary: w)
  case Nil
  then show ?case by simp
next
  case (Cons i rest)
  obtain dirX dirY dirZ where d: "dir = (dirX, dirY, dirZ)" by (cases dir) auto
  show ?case unfolding d march_step Let_def
    using Cons.IH Cons.prems by (simp add: d getBlock_keeps)
qed

lemma march_hit:
  "fst (march rand p dir steps w) = Some h \<Longrightarrow>
     blockAt rand w (hx h, hy h, hz h) \<noteq> air \<and> blockAt rand w (hx h, hy h, hz h) \<noteq> water \<and>
     face h \<le> 6"
proof (induction steps arbitrary: w)
  case Nil
  then show ?case by simp
next
  case (Cons i rest)
  obtain dirX dirY dirZ where d: "dir = (dirX, dirY, dirZ)" by (cases dir) auto
  let ?x = "\<lfloor>px p + dirX * (real i * 0.1)\<rfloor>"
  let ?y = "\<lfloor>py p + dirY * (real i * 0.1)\<rfloor>"
  let ?z = "\<lfloor>pz p + dirZ * (real i * 0.1)\<rfloor>"
  show ?case
  proof (cases "blockAt rand w (?x, ?y, ?z) \<noteq> air \<and> blockAt rand w (?x, ?y, ?z) \<noteq> water")
    case True
    then show ?thesis using Cons.prems unfolding d march_step Let_def by auto
  next
    case False
    then have "fst (march rand p dir rest (snd (getBlock rand w ?x ?y ?z))) = Some h"
      using Cons.prems unfolding d march_step Let_def by auto
    from Cons.IH [OF this] show ?thesis by simp
  qed
qed

lemma raycast_world: "blockAt rand (snd (raycast rand p m w)) c = blockAt rand w c"
  by (simp add: raycast_def Let_def march_world)

lemma raycast_wf: "world_wf w \<Longrightarrow> world_wf (snd (raycast rand p m w))"
  by (simp add: raycast_def Let_def march_wf)

lemma raycast_keeps: "w k = Some c \<Longrightarrow> snd (raycast rand p m w) k = Some c"
  by (simp add: raycast_def Let_def march_keeps)

lemma raycast_hit:
  "fst (raycast rand p m w) = Some h \<Longrightarrow>
     blockAt rand w (hx h, hy h, hz h) \<noteq> air \<and> blockAt rand w (hx h, hy h, hz h) \<noteq> water \<and>
     face h \<le> 6"
  unfolding raycast_def Let_def by (rule march_hit)

section \<open>Inventory slots under break and place\<close>

lemma findIndex_Some: "findIndex P xs = Some i \<Longrightarrow> i < length xs \<and> P (xs ! i)"
proof (induction xs arbitrary: i)
  case Nil
  then show ?case by simp
next
  case (Cons s rest)
  then show ?case by (cases "P s") (auto simp: nth_Cons split: nat.splits)
qed

lemma findIndex_None: "findIndex P xs = None \<longleftrightarrow> (\<forall>s \<in> set xs. \<not> P s)"
  by (induction xs) auto

lemma slots_update:
  assumes "\<forall>s \<in> set xs. slot_ok s" "slot_ok s'"
  shows "\<forall>s \<in> set (xs[i := s']). slot_ok s"
proof
  fix s assume "s \<in> set (xs[i := s'])"
  then have "s \<in> insert s' (set xs)" using set_update_subset_insert by fastforce
  then show "slot_ok s" using assms by auto
qed

lemma igniteTNT_inventory [simp]: "inventory (igniteTNT rand r1 r2 x y z g) = inventory g"
  by (simp add: igniteTNT_def)

lemma breakBlock_inventory_ok:
  assumes "\<forall>s \<in> set (inventory g). slot_ok s"
  shows "\<forall>s \<in> set (inventory (breakBlock rand r1 r2 p g)). slot_ok s"
proof (cases "raycast rand p 5 (world g)")
  case (Pair ho w1)
  show ?thesis
  proof (cases ho)
    case None
    then show ?thesis using Pair assms by (simp add: breakBlock_def)
  next
    case (Some hit)
    obtain block w2 where gb: "getBlock rand w1 (hx hit) (hy hit) (hz hit) = (block, w2)"
      by (cases "getBlock rand w1 (hx hit) (hy hit) (hz hit)") auto
    let ?inv = "inventory g"
    have inc: "\<forall>s \<in> set (?inv[i := (?inv ! i)\<lparr>count := count (?inv ! i) + 1\<rparr>]). slot_ok s"
      if "findIndex (\<lambda>s. type s = Some block \<and> count s < 64) ?inv = Some i" for i
    proof -
      from findIndex_Some [OF that]
      have i: "i < length ?inv" "type (?inv ! i) = Some block" "count (?inv ! i) < 64" by auto
      then have "slot_ok (?inv ! i)" using assms by simp
      then have "slot_ok ((?inv ! i)\<lparr>count := count (?inv ! i) + 1\<rparr>)"
        using i by (simp add: slot_ok_def)
      then show ?thesis using assms by (intro slots_update)
    qed
    have new: "\<forall>s \<in> set (?inv[j := (?inv ! j)\<lparr>type := Some block, count := 1\<rparr>]). slot_ok s" for j
      using assms by (intro slots_update) (simp_all add: slot_ok_def)
    show ?thesis
      using Pair Some gb assms inc new
      by (simp add: breakBlock_def Let_def split: option.splits)
  qed
qed

lemma placeBlock_inventory_ok:
  assumes "\<forall>s \<in> set (inventory g). slot_ok s" "placeBlock ar rand p g = Inr g'"
  shows "\<forall>s \<in> set (inventory g'). slot_ok s"
proof (cases "raycast rand p 5 (world g)")
  case (Pair ho w1)
  show ?thesis
  proof (cases ho)
    case None
    then show ?thesis using Pair assms by (auto simp: placeBlock_def)
  next
    case (Some hit)
    let ?inv = "inventory g"
    let ?sel = "selectedSlot p"
    let ?s1 = "(?inv ! ?sel)\<lparr>count := count (?inv ! ?sel) - 1\<rparr>"
    let ?s2 = "if count ?s1 = 0 then ?s1\<lparr>type := None\<rparr> else ?s1"
    have dec: "\<forall>s \<in> set (?inv[?sel := ?s2]). slot_ok s"
      if "?sel < length ?inv" "type (?inv ! ?sel) \<noteq> None" "count (?inv ! ?sel) > 0"
    proof -
      have "slot_ok (?inv ! ?sel)" using assms(1) that by simp
      then have "slot_ok ?s2" using that by (auto simp: slot_ok_def)
      then show ?thesis using assms(1) by (intro slots_update)
    qed
    obtain ox oy oz where fo: "faceOffsets ! face hit = (ox, oy, oz)"
      by (cases "faceOffsets ! face hit") auto
    show ?thesis
      using Pair Some assms dec fo
      by (auto simp: placeBlock_def Let_def split: if_splits)
  qed
qed

lemma placeBlock_length:
  "placeBlock ar rand p g = Inr g' \<Longrightarrow> length (inventory g') = length (inventory g)"
  by (auto simp: placeBlock_def Let_def split: prod.splits option.splits if_splits)

lemma breakBlock_length: "length (inventory (breakBlock rand r1 r2 p g)) = length (inventory g)"
  by (auto simp: breakBlock_def Let_def split: prod.splits option.splits if_splits)

lemma placeBlock_returns:
  "selectedSlot p < length (inventory g) \<Longrightarrow> \<exists>g'. placeBlock ar rand p g = Inr g'"
  by (auto simp: placeBlock_def Let_def split: prod.splits option.splits if_splits)

lemma run_inventory_ok:
  "\<forall>s \<in> set (inventory g). slot_ok s \<Longrightarrow> run ar rand acts g = Inr g' \<Longrightarrow>
   \<forall>s \<in> set (inventory g'). slot_ok s"
proof (induction acts arbitrary: g)
  case Nil
  then show ?case by simp
next
  case (Cons a rest)
  show ?case
  proof (cases a)
    case (Break p r1 r2)
    then show ?thesis
      using Cons.IH [OF breakBlock_inventory_ok [OF Cons.prems(1)]] Cons.prems(2) by simp
  next
    case (Place p)
    then obtain g1 where g1: "placeBlock ar rand p g = Inr g1" "run ar rand rest g1 = Inr g'"
      using Cons.prems(2) by (auto split: sum.splits)
    from Cons.IH [OF placeBlock_inventory_ok [OF Cons.prems(1) g1(1)] g1(2)]
    show ?thesis .
  qed
qed

lemma run_returns:
  "\<forall>a \<in> set acts. slotInRange (length (inventory g)) a \<Longrightarrow> \<exists>g'. run ar rand acts g = Inr g'"
proof (induction acts arbitrary: g)
  case Nil
  then show ?case by simp
next
  case (Cons a rest)
  show ?case
  proof (cases a)
    case (Break p r1 r2)
    then show ?thesis
      using Cons.IH [of "breakBlock rand r1 r2 p g"] Cons.prems
      by (simp add: breakBlock_length)
  next
    case (Place p)
    then have "selectedSlot p < length (inventory g)" using Cons.prems by simp
    from placeBlock_returns [OF this] obtain g1 where g1: "placeBlock ar rand p g = Inr g1" by blast
    then show ?thesis
      using Cons.IH [of g1] Cons.prems Place by (simp add: placeBlock_length)
  qed
qed

section \<open>A break action that hits\<close>

lemma blockAt_out_of_range: "y < 0 \<or> 64 \<le> y \<Longrightarrow> blockAt rand w (x, y, z) = air"
  by (auto simp: blockAt_eq)

lemma blockAt_setBlock_air:
  assumes "world_wf w" "blockAt rand w (x, y, z) \<noteq> air"
  shows "blockAt rand (setBlock rand w x y z air) (x, y, z) = air"
proof -
  have "0 \<le> y \<and> y < 64" using assms(2) blockAt_out_of_range [of y rand w x z] by force
  then show ?thesis using blockAt_setBlock [OF assms(1), of rand x y z air x y z] by simp
qed

lemma breakBlock_hit:
  assumes "fst (raycast rand p 5 (world g)) = Some hit"
  shows "breakBlock rand r1 r2 p g =
     (let w2 = snd (getBlock rand (snd (raycast rand p 5 (world g))) (hx hit) (hy hit) (hz hit));
          block = blockAt rand (world g) (hx hit, hy hit, hz hit)
      in if block = tnt
         then igniteTNT rand r1 r2 (hx hit) (hy hit) (hz hit) (g\<lparr>world := w2\<rparr>)
         else
           (let g3 = g\<lparr>world := setBlock rand w2 (hx hit) (hy hit) (hz hit) air\<rparr>;
                slots = inventory g
            in if mode p = survival then
                 (case findIndex (\<lambda>s. type s = Some block \<and> count s < 64) slots of
                    Some i \<Rightarrow>
                      g3\<lparr>inventory := slots[i := (slots ! i)\<lparr>count := count (slots ! i) + 1\<rparr>]\<rparr>
                  | None \<Rightarrow>
                      (case findIndex (\<lambda>s. type s = None) slots of
                         Some j \<Rightarrow>
                           g3\<lparr>inventory := slots[j := (slots ! j)\<lparr>type := Some block, count := 1\<rparr>]\<rparr>
                       | None \<Rightarrow> g3))
               else g3))"
proof -
  obtain w1 where r: "raycast rand p 5 (world g) = (Some hit, w1)"
    using assms by (cases "raycast rand p 5 (world g)") auto
  obtain block w2 where gb: "getBlock rand w1 (hx hit) (hy hit) (hz hit) = (block, w2)"
    by (cases "getBlock rand w1 (hx hit) (hy hit) (hz hit)") auto
  have "fst (getBlock rand w1 (hx hit) (hy hit) (hz hit)) =
        blockAt rand (world g) (hx hit, hy hit, hz hit)"
    using raycast_world [of rand p 5 "world g" "(hx hit, hy hit, hz hit)"] r
    by (simp add: fst_getBlock)
  then have b: "block = blockAt rand (world g) (hx hit, hy hit, hz hit)"
    using gb by simp
  have w2: "w2 = snd (getBlock rand (snd (raycast rand p 5 (world g))) (hx hit) (hy hit) (hz hit))"
    using gb r by simp
  have "breakBlock rand r1 r2 p g =
     (if block = tnt
      then igniteTNT rand r1 r2 (hx hit) (hy hit) (hz hit) (g\<lparr>world := w2\<rparr>)
      else
        (let g3 = g\<lparr>world := setBlock rand w2 (hx hit) (hy hit) (hz hit) air\<rparr>;
             slots = inventory g
         in if mode p = survival then
              (case findIndex (\<lambda>s. type s = Some block \<and> count s < 64) slots of
                 Some i \<Rightarrow>
                   g3\<lparr>inventory := slots[i := (slots ! i)\<lparr>count := count (slots ! i) + 1\<rparr>]\<rparr>
               | None \<Rightarrow>
                   (case findIndex (\<lambda>s. type s = None) slots of
                      Some j \<Rightarrow>
                        g3\<lparr>inventory := slots[j := (slots ! j)\<lparr>type := Some block, count := 1\<rparr>]\<rparr>
                    | None \<Rightarrow> g3))
            else g3))"
    unfolding breakBlock_def r by (simp add: gb)
  then show ?thesis
    unfolding b w2 Let_def .
qed

lemma world_after_hit_wf:
  "world_wf (world g) \<Longrightarrow>
   world_wf (snd (getBlock rand (snd (raycast rand p 5 (world g))) x y z))"
  by (intro world_wf_getBlock raycast_wf)

lemma blockAt_after_hit:
  "blockAt rand (snd (getBlock rand (snd (raycast rand p 5 (world g))) x y z)) c =
   blockAt rand (world g) c"
  by (simp add: raycast_world)

lemma placeBlock_hit:
  assumes "fst (raycast rand p 5 (world g)) = Some hit"
  shows "placeBlock ar rand p g =
     (let world1 = snd (raycast rand p 5 (world g));
          slots = inventory g; sel = selectedSlot p; g1 = g\<lparr>world := world1\<rparr>
      in if sel \<ge> length slots then Inl TypeError
         else if type (slots ! sel) \<noteq> None \<and> count (slots ! sel) > 0 then
           (case faceOffsets ! face hit of (ox, oy, oz) \<Rightarrow>
              let newX = hx hit + ox;
                  newY = hy hit + oy;
                  newZ = hz hit + oz;
                  minX = \<lfloor>fsub ar (px p) 0.3\<rfloor>; maxX = \<lfloor>fadd ar (px p) 0.3\<rfloor>;
                  minY = \<lfloor>fsub ar (py p) 1.8\<rfloor>; maxY = \<lfloor>fadd ar (py p) 0.2\<rfloor>;
                  minZ = \<lfloor>fsub ar (pz p) 0.3\<rfloor>; maxZ = \<lfloor>fadd ar (pz p) 0.3\<rfloor>
              in if newX < minX \<or> newX > maxX \<or> newY < minY \<or> newY > maxY \<or>
                    newZ < minZ \<or> newZ > maxZ
                 then
                   (let g2 = g1\<lparr>world := setBlock rand world1 newX newY newZ (the (type (slots ! sel)))\<rparr>
                    in if mode p = survival then
                         (let s1 = (slots ! sel)\<lparr>count := count (slots ! sel) - 1\<rparr>;
                              s2 = (if count s1 = 0 then s1\<lparr>type := None\<rparr> else s1)
                          in Inr (g2\<lparr>inventory := slots[sel := s2]\<rparr>))
                       else Inr g2)
                 else Inr g1)
         else Inr g1)"
proof -
  obtain w1 where r: "raycast rand p 5 (world g) = (Some hit, w1)"
    using assms by (cases "raycast rand p 5 (world g)") auto
  have w1: "snd (raycast rand p 5 (world g)) = w1" using r by simp
  show ?thesis
    unfolding w1 unfolding placeBlock_def r by simp
qed





section \<open>The worked scenes\<close>

declare march.simps [simp del]

lemma steps5: "[0..<50] = 0 # 1 # 2 # [3..<50]"
  by (simp add: upt_conv_Cons numeral_2_eq_2 numeral_3_eq_3)

lemma wallWorld_wf: "world_wf (wallWorld b)"
  by (simp add: wallWorld_def world_wf_setBlock world_wf_empty)

lemma wallWorld_blocks:
  "blockAt calm (wallWorld b) (8, 40, 8) = air" "blockAt calm (wallWorld b) (9, 40, 8) = b"
  by (simp_all add: wallWorld_def blockAt_setBlock world_wf_setBlock world_wf_empty)

lemma raycast_east:
  assumes "blockAt rand w (8, 40, 8) = air" "blockAt rand w (9, 40, 8) = b"
    and "b \<noteq> air" "b \<noteq> water"
  shows "fst (raycast rand (facingEast m) 5 w) = Some \<lparr>hx = 9, hy = 40, hz = 8, face = 1\<rparr>"
  using assms
  by (simp add: raycast_def steps5 march_step facingEast_def)

lemma raycast_wall:
  assumes "b \<noteq> air" "b \<noteq> water"
  shows "fst (raycast calm (facingEast m) 5 (wallWorld b)) = Some \<lparr>hx = 9, hy = 40, hz = 8, face = 1\<rparr>"
  by (rule raycast_east [OF wallWorld_blocks(1) wallWorld_blocks(2) assms])




section \<open>Explosions\<close>

lemma fold_concat: "fold f (concat xss) a = fold (fold f) xss a"
  by (induction xss arbitrary: a) simp_all

lemma explodeTNT_fold:
  "explodeTNT ar rand draws x y z g = fold (explodeAt ar rand draws x y z) blastOffsets g"
  by (simp add: explodeTNT_def blastOffsets_def fold_concat fold_map comp_def)

lemma explodeAt_eq:
  "explodeAt ar rand draws x y z d g =
     (case blastTarget ar x y z d of (bx, by, bz) \<Rightarrow>
        let old = blockAt rand (world g) (bx, by, bz);
            w1 = snd (getBlock rand (world g) bx by bz)
        in if blastDist ar d \<le> 4 then
             (if old = tnt
              then g\<lparr>tntEntities := tntEntities g @ [armed draws d (bx, by, bz)],
                     world := setBlock rand w1 bx by bz air\<rparr>
              else if old \<noteq> air \<and> destroyDraw draws d > fmul ar (fdiv ar (blastDist ar d) 4) 0.5
              then g\<lparr>world := setBlock rand w1 bx by bz air\<rparr>
              else g\<lparr>world := w1\<rparr>)
           else g)"
  by (cases d)
     (simp add: explodeAt_def blastTarget_def blastDist_def armed_def igniteTNT_def Let_def
       blockAt_def split: prod.splits)

lemma explodeAt_inventory [simp]: "inventory (explodeAt ar rand draws x y z d g) = inventory g"
  by (simp add: explodeAt_eq Let_def split: prod.splits)

lemma explodeAt_wf:
  "world_wf (world g) \<Longrightarrow> world_wf (world (explodeAt ar rand draws x y z d g))"
  by (simp add: explodeAt_eq Let_def world_wf_setBlock world_wf_getBlock split: prod.splits)

lemma explodeAt_entities:
  "tntEntities (explodeAt ar rand draws x y z d g) =
     tntEntities g @
       (if blastDist ar d \<le> 4 \<and> blockAt rand (world g) (blastTarget ar x y z d) = tnt
        then [armed draws d (blastTarget ar x y z d)] else [])"
  by (simp add: explodeAt_eq Let_def split: prod.splits)

lemma blockAt_air_setBlock:
  assumes "world_wf w"
  shows "blockAt rand (setBlock rand w bx by bz air) q =
         (if q = (bx, by, bz) then air else blockAt rand w q)"
proof (cases q)
  case (fields qx qy qz)
  show ?thesis
  proof (cases "0 \<le> by \<and> by < 64")
    case True
    then show ?thesis using blockAt_setBlock [OF assms, of rand bx "by" bz air qx qy qz] fields
      by simp
  next
    case False
    then have "blockAt rand w (bx, by, bz) = air" by (auto simp: blockAt_eq)
    then show ?thesis using blockAt_setBlock [OF assms, of rand bx "by" bz air qx qy qz] fields
      by auto
  qed
qed

lemma explodeAt_blockAt:
  assumes "world_wf (world g)"
  shows "blockAt rand (world (explodeAt ar rand draws x y z d g)) q =
         (if q = blastTarget ar x y z d \<and> blasted ar rand draws (world g) d q
          then air else blockAt rand (world g) q)"
proof -
  obtain bx "by" bz where b: "blastTarget ar x y z d = (bx, by, bz)"
    by (cases "blastTarget ar x y z d") auto
  have wf: "world_wf (snd (getBlock rand (world g) bx by bz))"
    using assms by (rule world_wf_getBlock)
  show ?thesis
    by (auto simp: explodeAt_eq b Let_def blasted_def blockAt_air_setBlock [OF wf])
qed

lemma blasted_cong:
  "blockAt rand w b = blockAt rand w' b \<Longrightarrow>
   blasted ar rand draws w d b = blasted ar rand draws w' d b"
  by (simp add: blasted_def)

lemma blasted_not_air: "blasted ar rand draws w d b \<Longrightarrow> blockAt rand w b \<noteq> air"
  by (auto simp: blasted_def)

lemma fold_explodeAt_blocks:
  assumes "world_wf (world g)"
  shows "world_wf (world (fold (explodeAt ar rand draws x y z) ds g)) \<and>
         inventory (fold (explodeAt ar rand draws x y z) ds g) = inventory g \<and>
         (\<forall>q. blockAt rand (world (fold (explodeAt ar rand draws x y z) ds g)) q =
                (if \<exists>d \<in> set ds. blastTarget ar x y z d = q \<and> blasted ar rand draws (world g) d q
                 then air else blockAt rand (world g) q))"
  using assms
proof (induction ds arbitrary: g)
  case Nil
  then show ?case by simp
next
  case (Cons d rest)
  let ?T = "blastTarget ar x y z"
  let ?g1 = "explodeAt ar rand draws x y z d g"
  have wf1: "world_wf (world ?g1)" using Cons.prems by (rule explodeAt_wf)
  note IH = Cons.IH [OF wf1]
  have b1: "blockAt rand (world ?g1) q =
            (if q = ?T d \<and> blasted ar rand draws (world g) d q then air else blockAt rand (world g) q)" for q
    using Cons.prems by (rule explodeAt_blockAt)
  have blocks: "blockAt rand (world (fold (explodeAt ar rand draws x y z) rest ?g1)) q =
        (if \<exists>d' \<in> set (d # rest). ?T d' = q \<and> blasted ar rand draws (world g) d' q
         then air else blockAt rand (world g) q)" for q
  proof -
    have step: "blockAt rand (world (fold (explodeAt ar rand draws x y z) rest ?g1)) q =
          (if \<exists>d' \<in> set rest. ?T d' = q \<and> blasted ar rand draws (world ?g1) d' q
           then air else blockAt rand (world ?g1) q)"
      using IH by blast
    show ?thesis
    proof (cases "q = ?T d \<and> blasted ar rand draws (world g) d q")
      case True
      then have a: "blockAt rand (world ?g1) q = air" using b1 [of q] by auto
      then have "\<not> (\<exists>d' \<in> set rest. ?T d' = q \<and> blasted ar rand draws (world ?g1) d' q)"
        using blasted_not_air by blast
      then show ?thesis using step a True by auto
    next
      case False
      then have same: "blockAt rand (world ?g1) q = blockAt rand (world g) q"
        using b1 [of q] by auto
      then have "blasted ar rand draws (world ?g1) d' q = blasted ar rand draws (world g) d' q" for d'
        by (rule blasted_cong)
      then show ?thesis using step same False by auto
    qed
  qed
  show ?case
    using IH blocks by simp
qed

lemma fold_explodeAt_entities:
  assumes "world_wf (world g)" "distinct (map (blastTarget ar x y z) ds)"
  shows "tntEntities (fold (explodeAt ar rand draws x y z) ds g) =
           tntEntities g @
             map (\<lambda>d. armed draws d (blastTarget ar x y z d))
               (filter (\<lambda>d. blastDist ar d \<le> 4 \<and>
                             blockAt rand (world g) (blastTarget ar x y z d) = tnt) ds)"
  using assms
proof (induction ds arbitrary: g)
  case Nil
  then show ?case by simp
next
  case (Cons d rest)
  let ?T = "blastTarget ar x y z"
  let ?g1 = "explodeAt ar rand draws x y z d g"
  have wf1: "world_wf (world ?g1)" using Cons.prems(1) by (rule explodeAt_wf)
  have dist: "distinct (map ?T rest)"
    using Cons.prems(2) by simp
  have "?T d \<notin> ?T ` set rest"
    using Cons.prems(2) by simp
  then have fresh: "\<forall>d' \<in> set rest. ?T d' \<noteq> ?T d"
    by (metis imageI)
  note IH = Cons.IH [OF wf1 dist]
  have same: "blockAt rand (world ?g1) (?T d') = blockAt rand (world g) (?T d')"
    if "d' \<in> set rest" for d'
    using that fresh by (simp add: explodeAt_blockAt [OF Cons.prems(1)])
  have filt: "filter (\<lambda>d'. blastDist ar d' \<le> 4 \<and> blockAt rand (world ?g1) (?T d') = tnt) rest =
              filter (\<lambda>d'. blastDist ar d' \<le> 4 \<and> blockAt rand (world g) (?T d') = tnt) rest"
    by (rule filter_cong) (simp_all add: same)
  show ?case
    using IH by (simp add: filt explodeAt_entities)
qed

lemma blastOffsets_product:
  "blastOffsets = List.product [- 4..4] (List.product [- 4..4] [- 4..4])"
  unfolding blastOffsets_def product_concat_map map_concat map_map comp_def ..

lemma distinct_blastOffsets: "distinct blastOffsets"
  unfolding blastOffsets_product by (intro distinct_product distinct_upto)

lemma set_blastOffsets:
  "(dx, dy, dz) \<in> set blastOffsets \<longleftrightarrow>
     - 4 \<le> dx \<and> dx \<le> 4 \<and> - 4 \<le> dy \<and> dy \<le> 4 \<and> - 4 \<le> dz \<and> dz \<le> 4"
  unfolding blastOffsets_product by (simp only: set_product mem_Sigma_iff set_upto atLeastAtMost_iff conj_assoc)

lemma blastTarget_exact:
  "blastTarget exact x y z (dx, dy, dz) = (\<lfloor>x\<rfloor> + dx, \<lfloor>y\<rfloor> + dy, \<lfloor>z\<rfloor> + dz)"
  by (simp add: blastTarget_def exact_def)

lemma blastTarget_exact_inj: "blastTarget exact x y z d = blastTarget exact x y z d' \<Longrightarrow> d = d'"
  by (cases d; cases d') (simp add: blastTarget_exact)

lemma distinct_targets_exact: "distinct (map (blastTarget exact x y z) blastOffsets)"
  unfolding distinct_map
  using distinct_blastOffsets blastTarget_exact_inj by (auto simp: inj_on_def)

lemma blast_reach_exact:
  "(\<exists>d \<in> set blastOffsets. blastTarget exact x y z d = (bx, by, bz) \<and> P d) \<longleftrightarrow>
   (bx - \<lfloor>x\<rfloor>, by - \<lfloor>y\<rfloor>, bz - \<lfloor>z\<rfloor>) \<in> set blastOffsets \<and> P (bx - \<lfloor>x\<rfloor>, by - \<lfloor>y\<rfloor>, bz - \<lfloor>z\<rfloor>)"
proof
  assume "\<exists>d \<in> set blastOffsets. blastTarget exact x y z d = (bx, by, bz) \<and> P d"
  then obtain d where d: "d \<in> set blastOffsets" "blastTarget exact x y z d = (bx, by, bz)" "P d"
    by blast
  have "d = (bx - \<lfloor>x\<rfloor>, by - \<lfloor>y\<rfloor>, bz - \<lfloor>z\<rfloor>)"
    using d(2) by (cases d) (auto simp: blastTarget_exact)
  with d show "(bx - \<lfloor>x\<rfloor>, by - \<lfloor>y\<rfloor>, bz - \<lfloor>z\<rfloor>) \<in> set blastOffsets \<and>
               P (bx - \<lfloor>x\<rfloor>, by - \<lfloor>y\<rfloor>, bz - \<lfloor>z\<rfloor>)"
    by simp
next
  let ?d = "(bx - \<lfloor>x\<rfloor>, by - \<lfloor>y\<rfloor>, bz - \<lfloor>z\<rfloor>)"
  assume "?d \<in> set blastOffsets \<and> P ?d"
  moreover have "blastTarget exact x y z ?d = (bx, by, bz)" by (simp add: blastTarget_exact)
  ultimately show "\<exists>d \<in> set blastOffsets. blastTarget exact x y z d = (bx, by, bz) \<and> P d"
    by blast
qed

lemma sqrt_16: "sqrt 16 = 4"
  using real_sqrt_abs [of 4] by simp

lemma blastGame_wf: "world_wf (world blastGame)"
  by (simp add: blastGame_def world_wf_setBlock world_wf_empty)

lemma blastGame_blocks:
  "blockAt calm (world blastGame) (9, 40, 8) = tnt"
  "blockAt calm (world blastGame) (10, 40, 8) = stone"
  "blockAt calm (world blastGame) (12, 40, 8) = brick"
  by (simp_all add: blastGame_def blockAt_setBlock world_wf_setBlock world_wf_empty)

section \<open>The tick of an entity\<close>



section \<open>The world store: vertical bounds and round trip\<close>

text \<open>
  C1, as amended. For every integer world coordinate with \<open>y\<close> outside [0,64),
  \<open>getBlock\<close> returns air. The chunk map does not stay as it was: after the call it
  holds a chunk for the chunk coordinate of \<open>(x, z)\<close>, the one it had or else a newly
  generated one, and every other entry of the map is unchanged.
\<close>

theorem getBlock_out_of_range:
  assumes "y < 0 \<or> y \<ge> WORLD_HEIGHT"
  shows "fst (getBlock rand w x y z) = air \<and>
         snd (getBlock rand w x y z) (chunkCoord x, chunkCoord z) =
           Some (case w (chunkCoord x, chunkCoord z) of
                   None \<Rightarrow> generateTerrain rand (chunkCoord x) (chunkCoord z)
                 | Some c \<Rightarrow> c) \<and>
         (\<forall>k. k \<noteq> (chunkCoord x, chunkCoord z) \<longrightarrow> snd (getBlock rand w x y z) k = w k)"
  using assms
  by (auto simp: getBlock_eq WORLD_HEIGHT_def touch_def split: option.splits)

theorem getBlock_out_of_range_witness:
  "((- 1 :: int) < 0 \<or> - 1 \<ge> WORLD_HEIGHT) \<and>
   fst (getBlock (\<lambda>_ _. 0.5) Map.empty 5 (- 1) 20) = air \<and>
   snd (getBlock (\<lambda>_ _. 0.5) Map.empty 5 (- 1) 20) (0, 1) = Some (generateTerrain (\<lambda>_ _. 0.5) 0 1) \<and>
   snd (getBlock (\<lambda>_ _. 0.5) Map.empty 5 (- 1) 20) (3, 3) = None"
proof -
  have h: "(- 1 :: int) < 0 \<or> - 1 \<ge> WORLD_HEIGHT" by simp
  have c: "chunkCoord 5 = 0" "chunkCoord 20 = 1" by (simp_all add: chunkCoord_div)
  from getBlock_out_of_range [OF h, of "\<lambda>_ _. 0.5" Map.empty 5 20]
  show ?thesis using h by (simp add: c)
qed

text \<open>
  C1 as stated fails: a lookup below the world at a coordinate whose chunk is absent
  returns air and adds that chunk to the map.
\<close>

theorem getBlock_materializes_counterexample:
  "fst (getBlock (\<lambda>_ _. 0.5) Map.empty 5 (- 1) 20) = air \<and>
   (0, 1) \<notin> dom (Map.empty :: World) \<and>
   (0, 1) \<in> dom (snd (getBlock (\<lambda>_ _. 0.5) Map.empty 5 (- 1) 20))"
  by (simp add: getBlock_eq chunkCoord_div touch_def)

text \<open>
  C2. For every integer world coordinate with \<open>0 \<le> y < 64\<close> and every block \<open>v\<close>,
  \<open>getBlock\<close> after \<open>setBlock\<close> at the same coordinate returns \<open>v\<close>, in any world whose
  chunks have the extent that the generator gives them.
\<close>

theorem setBlock_getBlock:
  assumes "world_wf w" "0 \<le> y" "y < WORLD_HEIGHT"
  shows "fst (getBlock rand (setBlock rand w x y z v) x y z) = v"
  using assms blockAt_setBlock [of w rand x y z v x y z]
  by (simp add: fst_getBlock WORLD_HEIGHT_def)

theorem setBlock_getBlock_witness:
  "world_wf Map.empty \<and> (0::int) \<le> 10 \<and> (10::int) < WORLD_HEIGHT \<and>
   fst (getBlock (\<lambda>_ _. 0.5) (setBlock (\<lambda>_ _. 0.5) Map.empty (- 1) 10 37 brick) (- 1) 10 37) = brick"
proof -
  have h: "world_wf Map.empty" "(0::int) \<le> 10" "(10::int) < WORLD_HEIGHT"
    by (simp_all add: world_wf_def WORLD_HEIGHT_def)
  from setBlock_getBlock [OF h, of "\<lambda>_ _. 0.5" "- 1" 37 brick] h show ?thesis by simp
qed

section \<open>The inventory invariant\<close>

text \<open>
  C3. From an inventory whose slots all satisfy the invariant (the type is null exactly
  when the count is 0, and the count lies in [0,64]), every sequence of \<open>breakBlock\<close>
  and \<open>placeBlock\<close> calls that runs to its end leaves an inventory whose slots all
  satisfy it; and the sequence does run to its end when every place action selects a
  slot of the inventory.
\<close>

theorem inventory_invariant:
  assumes "\<forall>s \<in> set (inventory g). slot_ok s"
  shows "(\<forall>g'. run ar rand acts g = Inr g' \<longrightarrow> (\<forall>s \<in> set (inventory g'). slot_ok s)) \<and>
         ((\<forall>a \<in> set acts. slotInRange (length (inventory g)) a) \<longrightarrow>
            (\<exists>g'. run ar rand acts g = Inr g'))"
  using assms run_inventory_ok run_returns by blast

text \<open>
  On the wall scene, with one dirt and five stone in the inventory: the place action
  spends the dirt (its slot becomes empty) and the break action picks the stone block up
  (the count of the stone slot goes from 5 to 6).
\<close>

theorem inventory_invariant_witness:
  "\<exists>g'. run exact calm [Place (facingEast survival), Break (facingEast survival) 0.5 0.5]
           (wallGame stone [\<lparr>type = Some dirt, count = 1\<rparr>, \<lparr>type = Some stone, count = 5\<rparr>])
         = Inr g' \<and>
        inventory g' = [\<lparr>type = None, count = 0\<rparr>, \<lparr>type = Some stone, count = 6\<rparr>] \<and>
        (\<forall>s \<in> set (inventory g'). slot_ok s)"
proof -
  let ?p = "facingEast survival"
  let ?g0 = "wallGame stone [\<lparr>type = Some dirt, count = 1\<rparr>, \<lparr>type = Some stone, count = 5\<rparr>]"
  let ?hit = "\<lparr>hx = 9, hy = 40, hz = 8, face = 1\<rparr>"
  let ?w1 = "snd (raycast calm ?p 5 (wallWorld stone))"
  let ?w2 = "setBlock calm ?w1 10 40 8 dirt"
  let ?g1 = "\<lparr>world = ?w2,
             inventory = [\<lparr>type = None, count = 0\<rparr>, \<lparr>type = Some stone, count = 5\<rparr>],
             tntEntities = []\<rparr>"
  let ?acts = "[Place ?p, Break ?p 0.5 0.5]"
  have h: "\<forall>s \<in> set (inventory ?g0). slot_ok s"
    by (simp add: wallGame_def slot_ok_def)
  have h0: "fst (raycast calm ?p 5 (world ?g0)) = Some ?hit"
    by (simp add: wallGame_def raycast_wall)
  have place: "placeBlock exact calm ?p ?g0 = Inr ?g1"
    unfolding placeBlock_hit [OF h0]
    by (simp add: Let_def faceOffsets_def facingEast_def exact_def wallGame_def)
  have m: "mode ?p = survival" by (simp add: facingEast_def)
  have wf1: "world_wf ?w1" by (intro raycast_wf wallWorld_wf)
  have b8: "blockAt calm ?w2 (8, 40, 8) = air"
    by (simp add: blockAt_setBlock [OF wf1] raycast_world wallWorld_blocks)
  have b9: "blockAt calm ?w2 (9, 40, 8) = stone"
    by (simp add: blockAt_setBlock [OF wf1] raycast_world wallWorld_blocks)
  have h1: "fst (raycast calm ?p 5 (world ?g1)) = Some ?hit"
    using raycast_east [OF b8 b9, of survival] by simp
  have break: "inventory (breakBlock calm 0.5 0.5 ?p ?g1) =
               [\<lparr>type = None, count = 0\<rparr>, \<lparr>type = Some stone, count = 6\<rparr>]"
    unfolding breakBlock_hit [OF h1]
    by (simp add: Let_def b9 m)
  have r: "run exact calm ?acts ?g0 = Inr (breakBlock calm 0.5 0.5 ?p ?g1)"
    by (simp add: place)
  from inventory_invariant [OF h, of exact calm ?acts] r
  have "\<forall>s \<in> set (inventory (breakBlock calm 0.5 0.5 ?p ?g1)). slot_ok s" by blast
  with r break show ?thesis by blast
qed

section \<open>Breaking a block\<close>

text \<open>
  C7. A break action whose pick ray hits a voxel of kind tnt ignites it: the voxel reads
  air afterwards, one armed entity with fuse 80 is appended at the centre of the voxel, and
  the inventory is the one before the call.
\<close>

theorem breakBlock_ignites_tnt:
  assumes "world_wf (world g)"
    and "fst (raycast rand p 5 (world g)) = Some hit"
    and "blockAt rand (world g) (hx hit, hy hit, hz hit) = tnt"
  shows "blockAt rand (world (breakBlock rand r1 r2 p g)) (hx hit, hy hit, hz hit) = air \<and>
         tntEntities (breakBlock rand r1 r2 p g) =
           tntEntities g @
             [\<lparr>ex = real_of_int (hx hit) + 0.5, ey = real_of_int (hy hit) + 0.5,
               ez = real_of_int (hz hit) + 0.5,
               velX = (r1 - 0.5) * 0.02, velY = 0.2, velZ = (r2 - 0.5) * 0.02, fuse = 80\<rparr>] \<and>
         inventory (breakBlock rand r1 r2 p g) = inventory g"
proof -
  let ?w2 = "snd (getBlock rand (snd (raycast rand p 5 (world g))) (hx hit) (hy hit) (hz hit))"
  have g': "breakBlock rand r1 r2 p g =
            igniteTNT rand r1 r2 (hx hit) (hy hit) (hz hit) (g\<lparr>world := ?w2\<rparr>)"
    using assms(3) by (simp add: breakBlock_hit [OF assms(2)])
  have "blockAt rand ?w2 (hx hit, hy hit, hz hit) \<noteq> air"
    using assms(3) by (simp add: raycast_world)
  from blockAt_setBlock_air [OF world_after_hit_wf [OF assms(1)] this]
  show ?thesis by (simp add: g' igniteTNT_def)
qed

theorem breakBlock_ignites_tnt_witness:
  "blockAt calm (world (breakBlock calm 0.5 0.5 (facingEast survival)
                          (wallGame tnt [\<lparr>type = None, count = 0\<rparr>]))) (9, 40, 8) = air \<and>
   tntEntities (breakBlock calm 0.5 0.5 (facingEast survival)
                  (wallGame tnt [\<lparr>type = None, count = 0\<rparr>])) =
     [\<lparr>ex = 9.5, ey = 40.5, ez = 8.5, velX = 0, velY = 0.2, velZ = 0, fuse = 80\<rparr>] \<and>
   inventory (breakBlock calm 0.5 0.5 (facingEast survival)
                (wallGame tnt [\<lparr>type = None, count = 0\<rparr>])) = [\<lparr>type = None, count = 0\<rparr>]"
proof -
  let ?g = "wallGame tnt [\<lparr>type = None, count = 0\<rparr>]"
  let ?hit = "\<lparr>hx = 9, hy = 40, hz = 8, face = 1\<rparr>"
  have h1: "world_wf (world ?g)" by (simp add: wallGame_def wallWorld_wf)
  have h2: "fst (raycast calm (facingEast survival) 5 (world ?g)) = Some ?hit"
    by (simp add: wallGame_def raycast_wall)
  have h3: "blockAt calm (world ?g) (hx ?hit, hy ?hit, hz ?hit) = tnt"
    by (simp add: wallGame_def wallWorld_blocks)
  from breakBlock_ignites_tnt [OF h1 h2 h3, of "0.5" "0.5"]
  show ?thesis by (simp add: wallGame_def)
qed

text \<open>
  C10. In survival mode, when the pick ray hits a solid voxel that is not tnt and the
  inventory has neither a slot of that kind with a count below 64 nor an empty slot, the
  voxel is set to air all the same and the inventory is unchanged: the block is lost.
\<close>

theorem breakBlock_full_inventory:
  assumes "world_wf (world g)"
    and "fst (raycast rand p 5 (world g)) = Some hit"
    and "blockAt rand (world g) (hx hit, hy hit, hz hit) = b" and "b \<noteq> tnt"
    and "mode p = survival"
    and "\<forall>s \<in> set (inventory g). \<not> (type s = Some b \<and> count s < 64) \<and> type s \<noteq> None"
  shows "blockAt rand (world (breakBlock rand r1 r2 p g)) (hx hit, hy hit, hz hit) = air \<and>
         inventory (breakBlock rand r1 r2 p g) = inventory g \<and>
         tntEntities (breakBlock rand r1 r2 p g) = tntEntities g"
proof -
  let ?w2 = "snd (getBlock rand (snd (raycast rand p 5 (world g))) (hx hit) (hy hit) (hz hit))"
  have n1: "findIndex (\<lambda>s. type s = Some b \<and> count s < 64) (inventory g) = None"
    using assms(6) by (simp add: findIndex_None)
  have n2: "findIndex (\<lambda>s. type s = None) (inventory g) = None"
    using assms(6) by (simp add: findIndex_None)
  have g': "breakBlock rand r1 r2 p g =
            g\<lparr>world := setBlock rand ?w2 (hx hit) (hy hit) (hz hit) air\<rparr>"
    using assms(3,4,5) n1 n2 by (simp add: breakBlock_hit [OF assms(2)] Let_def)
  have "blockAt rand (world g) (hx hit, hy hit, hz hit) \<noteq> air"
    using raycast_hit [OF assms(2)] by simp
  then have "blockAt rand ?w2 (hx hit, hy hit, hz hit) \<noteq> air"
    by (simp add: raycast_world)
  from blockAt_setBlock_air [OF world_after_hit_wf [OF assms(1)] this]
  show ?thesis by (simp add: g')
qed

theorem breakBlock_full_inventory_witness:
  "blockAt calm (world (breakBlock calm 0.5 0.5 (facingEast survival)
       (wallGame stone [\<lparr>type = Some stone, count = 64\<rparr>, \<lparr>type = Some dirt, count = 3\<rparr>])))
     (9, 40, 8) = air \<and>
   inventory (breakBlock calm 0.5 0.5 (facingEast survival)
       (wallGame stone [\<lparr>type = Some stone, count = 64\<rparr>, \<lparr>type = Some dirt, count = 3\<rparr>])) =
     [\<lparr>type = Some stone, count = 64\<rparr>, \<lparr>type = Some dirt, count = 3\<rparr>]"
proof -
  let ?g = "wallGame stone [\<lparr>type = Some stone, count = 64\<rparr>, \<lparr>type = Some dirt, count = 3\<rparr>]"
  let ?hit = "\<lparr>hx = 9, hy = 40, hz = 8, face = 1\<rparr>"
  have h1: "world_wf (world ?g)" by (simp add: wallGame_def wallWorld_wf)
  have h2: "fst (raycast calm (facingEast survival) 5 (world ?g)) = Some ?hit"
    by (simp add: wallGame_def raycast_wall)
  have h3: "blockAt calm (world ?g) (hx ?hit, hy ?hit, hz ?hit) = stone"
    by (simp add: wallGame_def wallWorld_blocks)
  have h4: "stone \<noteq> tnt" by simp
  have h5: "mode (facingEast survival) = survival" by (simp add: facingEast_def)
  have h6: "\<forall>s \<in> set (inventory ?g). \<not> (type s = Some stone \<and> count s < 64) \<and> type s \<noteq> None"
    by (simp add: wallGame_def)
  from breakBlock_full_inventory [OF h1 h2 h3 h4 h5 h6, of "0.5" "0.5"]
  show ?thesis by (simp add: wallGame_def)
qed

section \<open>Placing a block\<close>



text \<open>
  C5. The code at a ray along +x that enters a stone block one step ahead: \<open>raycast\<close>
  reports face 1, whose offset is (1, 0, 0), and \<open>placeBlock\<close> puts the new block at
  x + 1, behind the block that was hit, not at x - 1 between the player and the block.
\<close>

theorem raycast_east_reports_far_face:
  "fst (raycast calm (facingEast creative) 5 (wallWorld stone)) =
     Some \<lparr>hx = 9, hy = 40, hz = 8, face = 1\<rparr> \<and>
   faceOffsets ! 1 = (1, 0, 0) \<and>
   (\<exists>g'. placeBlock exact calm (facingEast creative) (wallGame stone [\<lparr>type = Some dirt, count = 64\<rparr>])
          = Inr g' \<and>
        blockAt calm (world g') (10, 40, 8) = dirt \<and>
        blockAt calm (world g') (8, 40, 8) = air)"
proof -
  let ?g = "wallGame stone [\<lparr>type = Some dirt, count = 64\<rparr>]"
  let ?p = "facingEast creative"
  let ?hit = "\<lparr>hx = 9, hy = 40, hz = 8, face = 1\<rparr>"
  have w: "world ?g = wallWorld stone" by (simp add: wallGame_def)
  have h: "fst (raycast calm ?p 5 (wallWorld stone)) = Some ?hit"
    by (simp add: raycast_wall)
  then obtain w1 where r: "raycast calm ?p 5 (world ?g) = (Some ?hit, w1)"
    unfolding w by (cases "raycast calm ?p 5 (wallWorld stone)") auto
  have wf: "world_wf w1"
    using raycast_wf [OF wallWorld_wf, of calm ?p 5 stone] r by (simp add: w)
  have keep: "blockAt calm w1 c = blockAt calm (wallWorld stone) c" for c
    using raycast_world [of calm ?p 5 "wallWorld stone" c] r by (simp add: w)
  have off: "faceOffsets ! 1 = (1, 0, 0)" by (simp add: faceOffsets_def)
  have p: "placeBlock exact calm ?p ?g = Inr (?g\<lparr>world := setBlock calm w1 10 40 8 dirt\<rparr>)"
    unfolding placeBlock_def r
    using off by (simp add: Let_def facingEast_def wallGame_def exact_def)
  have b1: "blockAt calm (setBlock calm w1 10 40 8 dirt) (10, 40, 8) = dirt"
    by (simp add: blockAt_setBlock [OF wf])
  have b2: "blockAt calm (setBlock calm w1 10 40 8 dirt) (8, 40, 8) = air"
    by (simp add: blockAt_setBlock [OF wf] keep wallWorld_blocks)
  show ?thesis using h off p b1 b2 by simp
qed

section \<open>Detonation\<close>

text \<open>
  C4. \<open>explodeTNT\<close> at an entity centre \<open>(x, y, z)\<close> visits the offsets
  \<open>(dx, dy, dz)\<close> with components in [-4, 4]; an offset reaches the voxel that holds the
  centre moved by it, at the distance that is the length of the offset. After the call
  a voxel is air when some offset at distance at most 4 reaches it and it held tnt, or
  held another block that is not air while the draw of that offset exceeds
  0.5 * (distance / 4); every other voxel, so every voxel that is reached only at a
  distance above 4 or not at all, holds the block it held before. For each tnt voxel
  reached at distance at most 4 one armed entity is appended, in the order of the loop;
  this is stated for additions under which different offsets reach different voxels,
  as they do when no addition rounds. The inventory stays as it was. The square root,
  the additions, the division and the product are the parameters \<open>ar\<close>; the world has
  chunks of the extent that the generator gives them.
\<close>

theorem explodeTNT_effect:
  assumes "world_wf (world g)"
  shows "blockAt rand (world (explodeTNT ar rand draws x y z g)) q =
           (if \<exists>d \<in> set blastOffsets.
                 blastTarget ar x y z d = q \<and> blastDist ar d \<le> 4 \<and>
                 (blockAt rand (world g) q = tnt \<or>
                  blockAt rand (world g) q \<noteq> air \<and>
                  destroyDraw draws d > fmul ar (fdiv ar (blastDist ar d) 4) 0.5)
            then air else blockAt rand (world g) q) \<and>
         (distinct (map (blastTarget ar x y z) blastOffsets) \<longrightarrow>
            tntEntities (explodeTNT ar rand draws x y z g) =
              tntEntities g @
                map (\<lambda>d. armed draws d (blastTarget ar x y z d))
                  (filter (\<lambda>d. blastDist ar d \<le> 4 \<and>
                                blockAt rand (world g) (blastTarget ar x y z d) = tnt)
                     blastOffsets)) \<and>
         inventory (explodeTNT ar rand draws x y z g) = inventory g"
proof -
  note b = fold_explodeAt_blocks [OF assms, of ar rand draws x y z blastOffsets]
  have "blockAt rand (world (fold (explodeAt ar rand draws x y z) blastOffsets g)) q =
        (if \<exists>d \<in> set blastOffsets. blastTarget ar x y z d = q \<and> blasted ar rand draws (world g) d q
         then air else blockAt rand (world g) q)"
    using b by blast
  then have blocks: "blockAt rand (world (explodeTNT ar rand draws x y z g)) q =
           (if \<exists>d \<in> set blastOffsets.
                 blastTarget ar x y z d = q \<and> blastDist ar d \<le> 4 \<and>
                 (blockAt rand (world g) q = tnt \<or>
                  blockAt rand (world g) q \<noteq> air \<and>
                  destroyDraw draws d > fmul ar (fdiv ar (blastDist ar d) 4) 0.5)
            then air else blockAt rand (world g) q)"
    unfolding explodeTNT_fold blasted_def .
  have inv: "inventory (explodeTNT ar rand draws x y z g) = inventory g"
    using b unfolding explodeTNT_fold by blast
  have ents: "tntEntities (explodeTNT ar rand draws x y z g) =
              tntEntities g @
                map (\<lambda>d. armed draws d (blastTarget ar x y z d))
                  (filter (\<lambda>d. blastDist ar d \<le> 4 \<and>
                                blockAt rand (world g) (blastTarget ar x y z d) = tnt)
                     blastOffsets)"
    if "distinct (map (blastTarget ar x y z) blastOffsets)"
    unfolding explodeTNT_fold by (rule fold_explodeAt_entities [OF assms that])
  show ?thesis using blocks inv ents by blast
qed

theorem explodeTNT_effect_witness:
  "blockAt calm (world (explodeTNT exact calm evenDraws 8.5 40.5 8.5 blastGame)) (9, 40, 8) = air \<and>
   blockAt calm (world (explodeTNT exact calm evenDraws 8.5 40.5 8.5 blastGame)) (10, 40, 8) = air \<and>
   blockAt calm (world (explodeTNT exact calm evenDraws 8.5 40.5 8.5 blastGame)) (12, 40, 8) = brick \<and>
   armed evenDraws (1, 0, 0) (9, 40, 8)
     \<in> set (tntEntities (explodeTNT exact calm evenDraws 8.5 40.5 8.5 blastGame))"
proof -
  let ?g' = "explodeTNT exact calm evenDraws 8.5 40.5 8.5 blastGame"
  let ?P = "\<lambda>d. blastDist exact d \<le> 4 \<and>
                 blockAt calm (world blastGame) (blastTarget exact 8.5 40.5 8.5 d) = tnt"
  let ?A = "\<lambda>d. armed evenDraws d (blastTarget exact 8.5 40.5 8.5 d)"
  note e = explodeTNT_effect [OF blastGame_wf, of calm exact evenDraws "8.5" "40.5" "8.5"]
  have c: "blockAt calm (world ?g') (bx, by, bz) =
           (if \<exists>d \<in> set blastOffsets.
                 blastTarget exact 8.5 40.5 8.5 d = (bx, by, bz) \<and> blastDist exact d \<le> 4 \<and>
                 (blockAt calm (world blastGame) (bx, by, bz) = tnt \<or>
                  blockAt calm (world blastGame) (bx, by, bz) \<noteq> air \<and>
                  destroyDraw evenDraws d > fmul exact (fdiv exact (blastDist exact d) 4) 0.5)
            then air else blockAt calm (world blastGame) (bx, by, bz))" for bx "by" bz
    using e [of "(bx, by, bz)"] by blast
  have v: "blastDist exact (1, 0, 0) = 1" "blastDist exact (2, 0, 0) = 2" "blastDist exact (4, 0, 0) = 4"
    by (simp_all add: blastDist_def exact_def sqrt_16)
  have m: "(1, 0, 0) \<in> set blastOffsets" "(2, 0, 0) \<in> set blastOffsets" "(4, 0, 0) \<in> set blastOffsets"
    by (simp_all add: set_blastOffsets)
  have ops: "fmul exact a b = a * b" "fdiv exact a b = a / b" for a b
    by (simp_all add: exact_def)
  have dr: "destroyDraw evenDraws d = 0.5" for d by (simp add: evenDraws_def)
  have b1: "blockAt calm (world ?g') (9, 40, 8) = air"
    unfolding c blast_reach_exact by (simp add: m v blastGame_blocks)
  have b2: "blockAt calm (world ?g') (10, 40, 8) = air"
    unfolding c blast_reach_exact by (simp add: m v ops dr blastGame_blocks)
  have b3: "blockAt calm (world ?g') (12, 40, 8) = brick"
    unfolding c blast_reach_exact by (simp add: m v ops dr blastGame_blocks)
  have t: "blastTarget exact 8.5 40.5 8.5 (1, 0, 0) = (9, 40, 8)"
    by (simp add: blastTarget_exact)
  have ents: "tntEntities ?g' = tntEntities blastGame @ map ?A (filter ?P blastOffsets)"
    using e [of "(9, 40, 8)"] distinct_targets_exact by blast
  have "(1, 0, 0) \<in> set (filter ?P blastOffsets)"
    by (simp add: m v blastTarget_exact blastGame_blocks)
  then have "?A (1, 0, 0) \<in> ?A ` set (filter ?P blastOffsets)"
    by (rule imageI)
  then have b4: "armed evenDraws (1, 0, 0) (9, 40, 8) \<in> set (tntEntities ?g')"
    unfolding ents t by simp
  show ?thesis using b1 b2 b3 b4 by simp
qed

section \<open>The tick of a TNT entity\<close>




end
